theory Spec2Isabelle
  imports Main
begin

section \<open>Python values: errors, decimal formatting, line splitting\<close>

text \<open>
  The script \<^verbatim>\<open>slide_edit.py\<close> is modelled function by function. An exception that a
  Python statement raises is a value of \<open>py_error\<close>. The constructor \<open>OutsideModel\<close> is
  not a Python exception: the library models below (\<^verbatim>\<open>re.sub\<close>,
  \<^verbatim>\<open>ElementTree.fromstring\<close>) cover a fragment of their input language and
  answer \<open>OutsideModel\<close> on every input beyond it, so that no theorem speaks about an
  input whose behaviour the model does not reproduce.
\<close>

datatype py_error =
    FileNotFoundError
  | IndexError
  | TypeError
  | KeyError
  | ReError
  | ParseError
  | ApiError
  | OutsideModel

text \<open>Python strings are lists of characters; \<open>None\<close> is the \<open>None\<close> of \<open>option\<close>.\<close>

definition newline :: char where
  "newline = CHR 0x0A"

definition backslash :: char where
  "backslash = CHR 0x5C"

text \<open>\<^verbatim>\<open>str(n)\<close> of a non-negative integer, as the f-strings of the script format it.\<close>

definition digit_char :: "nat \<Rightarrow> char" where
  "digit_char d = char_of (48 + d)"

function str_nat :: "nat \<Rightarrow> string" where
  "str_nat n = (if n < 10 then [digit_char n] else str_nat (n div 10) @ [digit_char (n mod 10)])"
  by pat_completeness auto
termination
  by (relation "measure (\<lambda>n. n)") auto

declare str_nat.simps [simp del]

text \<open>\<^verbatim>\<open>response.split("\n")\<close>: the fields between newlines; never the empty list.\<close>

primrec split_nl :: "string \<Rightarrow> string list" where
  "split_nl [] = [[]]"
| "split_nl (c # cs) =
     (if c = newline then [] # split_nl cs
      else (case split_nl cs of [] \<Rightarrow> [[c]] | field # fields \<Rightarrow> (c # field) # fields))"

text \<open>\<^verbatim>\<open>xs[j]\<close> for an index \<open>j \<ge> 0\<close>: IndexError beyond the end.\<close>

definition list_get :: "'a list \<Rightarrow> nat \<Rightarrow> py_error + 'a" where
  "list_get xs j = (if j < length xs then Inr (xs ! j) else Inl IndexError)"

section \<open>The library call \<^verbatim>\<open>re.sub(pattern, repl, string)\<close>\<close>

text \<open>
  The fragment of Python's pattern language that is modelled: ordinary characters, the
  dot (any character but a newline, no flag being given), capture groups \<^verbatim>\<open>( )\<close>
  and a backslash before a character that is neither an ASCII letter nor a digit (that
  character, literally). The other special characters of \<^verbatim>\<open>sre_parse\<close>
  (\<^verbatim>\<open>[ { * + ? ^ $ |\<close>) and a backslash before a letter or digit are outside
  the model. A pattern that ends in a single backslash, or whose parentheses do not
  balance, does not compile: \<^verbatim>\<open>re.error\<close>.
\<close>

datatype re_token = TLit char | TDot | TOpen | TClose | TBadEscape | TOutside

definition is_alnum :: "char \<Rightarrow> bool" where
  "is_alnum c = (let k = of_char c :: nat in
     (48 \<le> k \<and> k \<le> 57) \<or> (65 \<le> k \<and> k \<le> 90) \<or> (97 \<le> k \<and> k \<le> 122))"

definition re_special :: "char \<Rightarrow> re_token" where
  "re_special c =
     (if c = CHR ''.'' then TDot
      else if c = CHR ''('' then TOpen
      else if c = CHR '')'' then TClose
      else if c \<in> set ''[{*+?^$|'' then TOutside
      else TLit c)"

fun re_tokens :: "string \<Rightarrow> re_token list" where
  "re_tokens [] = []"
| "re_tokens [c] = (if c = backslash then [TBadEscape] else [re_special c])"
| "re_tokens (c # d # cs) =
     (if c = backslash then (if is_alnum d then TOutside else TLit d) # re_tokens cs
      else re_special c # re_tokens (d # cs))"

fun re_balanced :: "nat \<Rightarrow> re_token list \<Rightarrow> bool" where
  "re_balanced depth [] = (depth = 0)"
| "re_balanced depth (TOpen # ts) = re_balanced (Suc depth) ts"
| "re_balanced depth (TClose # ts) = (0 < depth \<and> re_balanced (depth - 1) ts)"
| "re_balanced depth (_ # ts) = re_balanced depth ts"

datatype re_atom = ALit char | AAny

fun re_atoms :: "re_token list \<Rightarrow> re_atom list" where
  "re_atoms [] = []"
| "re_atoms (TLit c # ts) = ALit c # re_atoms ts"
| "re_atoms (TDot # ts) = AAny # re_atoms ts"
| "re_atoms (_ # ts) = re_atoms ts"

definition re_compile :: "string \<Rightarrow> py_error + re_atom list" where
  "re_compile pattern =
     (let ts = re_tokens pattern in
      if TOutside \<in> set ts then Inl OutsideModel
      else if TBadEscape \<in> set ts \<or> \<not> re_balanced 0 ts then Inl ReError
      else Inr (re_atoms ts))"

fun atom_ok :: "re_atom \<Rightarrow> char \<Rightarrow> bool" where
  "atom_ok (ALit a) c = (a = c)"
| "atom_ok AAny c = (c \<noteq> newline)"

text \<open>Does the compiled pattern match at the start of the string?\<close>

fun re_match :: "re_atom list \<Rightarrow> string \<Rightarrow> bool" where
  "re_match [] s = True"
| "re_match (a # as) [] = False"
| "re_match (a # as) (c # cs) = (atom_ok a c \<and> re_match as cs)"

text \<open>
  The search of \<^verbatim>\<open>_sre\<close>: the offset of the leftmost match. With
  \<open>must_advance\<close> set, an empty match at offset 0 is refused (the flag is cleared
  after the first attempt).
\<close>

fun re_search :: "re_atom list \<Rightarrow> bool \<Rightarrow> string \<Rightarrow> nat option" where
  "re_search as must_advance [] =
     (if re_match as [] \<and> \<not> (must_advance \<and> as = []) then Some 0 else None)"
| "re_search as must_advance (c # cs) =
     (if re_match as (c # cs) \<and> \<not> (must_advance \<and> as = []) then Some 0
      else map_option Suc (re_search as False cs))"

text \<open>
  The substitution loop of \<^verbatim>\<open>pattern_subx\<close> with \<open>count = 0\<close>: every
  leftmost non-overlapping match is replaced; the text between matches is copied; after
  an empty match the next one must advance.
\<close>

function re_sub_loop :: "re_atom list \<Rightarrow> string \<Rightarrow> bool \<Rightarrow> string \<Rightarrow> string" where
  "re_sub_loop as repl must_advance s =
     (case re_search as must_advance s of
        None \<Rightarrow> s
      | Some b \<Rightarrow> take b s @ repl @ re_sub_loop as repl (as = []) (drop (b + length as) s))"
  by pat_completeness auto
termination
proof (relation "measure (\<lambda>(as, repl, adv, s). 2 * length s + (if adv then 0 else 1))", goal_cases)
  case 1
  then show ?case by simp
next
  case (2 as repl must_advance s b)
  have fits: "re_match ps t \<Longrightarrow> length ps \<le> length t" for ps t
    by (induction ps t rule: re_match.induct) auto
  have bound: "re_search as adv t = Some k \<Longrightarrow>
          k + length as \<le> length t \<and> (adv \<and> as = [] \<longrightarrow> 0 < k)" for adv t k
  proof (induction t arbitrary: adv k)
    case Nil
    then show ?case by (cases as) (auto split: if_splits)
  next
    case (Cons c cs)
    then show ?case by (auto split: if_splits dest: fits)
  qed
  from 2 have "b + length as \<le> length s \<and> (must_advance \<and> as = [] \<longrightarrow> 0 < b)"
    by (rule bound)
  then show ?case
    by (cases as) auto
qed

declare re_sub_loop.simps [simp del]

text \<open>
  \<^verbatim>\<open>re.sub\<close> itself. A pattern that is \<open>None\<close> is a TypeError. The pattern is
  compiled first. A replacement without a backslash is inserted literally; one with a
  backslash is a template (escapes, group references), which is outside the model.
\<close>

definition re_sub :: "string option \<Rightarrow> string \<Rightarrow> string \<Rightarrow> py_error + string" where
  "re_sub pattern repl s =
     (case pattern of
        None \<Rightarrow> Inl TypeError
      | Some p \<Rightarrow>
          (case re_compile p of
             Inl e \<Rightarrow> Inl e
           | Inr as \<Rightarrow>
               if backslash \<in> set repl then Inl OutsideModel
               else Inr (re_sub_loop as repl False s)))"

section \<open>The working directory and \<^verbatim>\<open>edit_text\<close>\<close>

text \<open>
  The files of the working directory: a map from a path to the text of the file.
  Opening a path that has no file raises FileNotFoundError.
\<close>

type_synonym filesystem = "string \<rightharpoonup> string"

definition slide_path :: "string \<Rightarrow> nat \<Rightarrow> string" where
  "slide_path save_dir k = save_dir @ ''/ppt/slides/slide'' @ str_nat k @ ''.xml''"

text \<open>
  The inner loop \<^verbatim>\<open>for j in range(n, n+n_slide): content = re.sub(xml_text[j],
  responses[j], content)\<close>, over the list of indices. The arguments of the call are
  evaluated left to right.
\<close>

fun sub_runs :: "string option list \<Rightarrow> string list \<Rightarrow> nat list \<Rightarrow> string \<Rightarrow> py_error + string" where
  "sub_runs xml_text responses [] content = Inr content"
| "sub_runs xml_text responses (j # js) content =
     (case list_get xml_text j of
        Inl e \<Rightarrow> Inl e
      | Inr pattern \<Rightarrow>
          (case list_get responses j of
             Inl e \<Rightarrow> Inl e
           | Inr repl \<Rightarrow>
               (case re_sub pattern repl content of
                  Inl e \<Rightarrow> Inl e
                | Inr content' \<Rightarrow> sub_runs xml_text responses js content')))"

text \<open>
  The outer loop \<^verbatim>\<open>for i, n_slide in enumerate(attrs_per_slide)\<close>, with the
  counter \<open>n\<close>. The file of slide \<open>i+1\<close> is read, rewritten in memory and written
  back; an exception leaves the files written so far and ends the loop. The result is
  the exception, if any, and the files. The run counts are \<^verbatim>\<open>len\<close> values, so
  natural numbers.
\<close>

fun edit_slides ::
  "string \<Rightarrow> string option list \<Rightarrow> string list \<Rightarrow> nat \<Rightarrow> nat \<Rightarrow> nat list \<Rightarrow> filesystem
     \<Rightarrow> py_error option \<times> filesystem" where
  "edit_slides save_dir xml_text responses i n [] fs = (None, fs)"
| "edit_slides save_dir xml_text responses i n (n_slide # rest) fs =
     (case fs (slide_path save_dir (i + 1)) of
        None \<Rightarrow> (Some FileNotFoundError, fs)
      | Some content \<Rightarrow>
          (case sub_runs xml_text responses [n ..< n + n_slide] content of
             Inl e \<Rightarrow> (Some e, fs)
           | Inr content' \<Rightarrow>
               edit_slides save_dir xml_text responses (i + 1) (n + n_slide) rest
                 (fs(slide_path save_dir (i + 1) \<mapsto> content'))))"

text \<open>The padding of \<^verbatim>\<open>edit_text\<close>: a short list of lines is filled with empty strings.\<close>

definition pad_responses :: "string list \<Rightarrow> nat \<Rightarrow> string list" where
  "pad_responses responses k =
     (if length responses < k then responses @ replicate (k - length responses) [] else responses)"

definition edit_text ::
  "string \<Rightarrow> string option list \<Rightarrow> string \<Rightarrow> nat list \<Rightarrow> filesystem \<Rightarrow> py_error option \<times> filesystem" where
  "edit_text save_dir xml_text response attrs_per_slide fs =
     edit_slides save_dir xml_text (pad_responses (split_nl response) (length xml_text)) 0 0
       attrs_per_slide fs"

section \<open>The library calls \<^verbatim>\<open>ElementTree.fromstring\<close> and \<^verbatim>\<open>findall\<close>\<close>






subsection \<open>Splitting the document into markup and character data\<close>




subsection \<open>Character data\<close>




subsection \<open>Names and attributes\<close>








subsection \<open>Namespaces\<close>












subsection \<open>Building the tree\<close>









subsection \<open>\<^verbatim>\<open>findall(".//a:t")\<close>\<close>




section \<open>\<^verbatim>\<open>text_parse\<close> and \<^verbatim>\<open>generate_text\<close>\<close>







section \<open>The presentation and \<^verbatim>\<open>edit_images\<close>\<close>

text \<open>
  An image is its pixel size (width, height) and a token for what it shows; the pixel
  data itself is not modelled. \<^verbatim>\<open>Image.resize(size)\<close> of PIL returns the picture
  resampled to the requested size.
\<close>

record image =
  img_size :: "nat \<times> nat"
  img_shows :: nat

definition pil_resize :: "nat \<times> nat \<Rightarrow> image \<Rightarrow> image" where
  "pil_resize sz img = img\<lparr>img_size := sz\<rparr>"

text \<open>
  A shape either has a \<^verbatim>\<open>text\<close> attribute, or is a picture with the relationship id
  of its image part, or is neither. A slide has its shapes and its relationships; the
  image parts of the package are shared by all slides.
\<close>

datatype shape = TextShape string | Picture string | OtherShape

record slide =
  shapes :: "shape list"
  rels :: "string \<rightharpoonup> nat"

text \<open>
  A request to the image API, and the API with the download that follows it: the
  \<open>k\<close>-th call answers a request with an image of any size, or fails.
\<close>

record request =
  req_prompt :: string
  req_n :: nat
  req_size :: string

type_synonym image_api = "nat \<Rightarrow> request \<Rightarrow> py_error + image"

record deck_state =
  image_parts :: "nat \<rightharpoonup> image"
  png_files :: "string \<rightharpoonup> image"
  api_calls :: "request list"
  final_pptx :: "(nat \<rightharpoonup> image) option"

text \<open>The bucket of lines 37 to 42.\<close>

definition outputsize :: "nat \<Rightarrow> string" where
  "outputsize width =
     (if width \<le> 256 then ''256x256''
      else if width \<le> 512 then ''512x512''
      else ''1024x1024'')"

text \<open>\<^verbatim>\<open>os.path.join(save_dir, name)\<close> for a relative \<open>name\<close>.\<close>

definition path_join :: "string \<Rightarrow> string \<Rightarrow> string" where
  "path_join dir name =
     (if dir = [] then name
      else if last dir = CHR ''/'' then dir @ name
      else dir @ ''/'' @ name)"

text \<open>The first inner loop: the prompt of a slide, from the shapes that have text.\<close>

fun slide_prompt :: "shape list \<Rightarrow> string" where
  "slide_prompt [] = []"
| "slide_prompt (TextShape t # rest) = t @ '' '' @ slide_prompt rest"
| "slide_prompt (_ # rest) = slide_prompt rest"

text \<open>
  The second inner loop, over the shapes of slide \<open>i+1\<close>. For a picture: the size of
  the image part, the bucket, the request, the download, the resize to the size read
  before, the PNG file, and the blob of the part.
\<close>

fun edit_shapes ::
  "image_api \<Rightarrow> string \<Rightarrow> nat \<Rightarrow> string \<Rightarrow> (string \<rightharpoonup> nat) \<Rightarrow> shape list \<Rightarrow> deck_state
     \<Rightarrow> py_error option \<times> deck_state" where
  "edit_shapes api save_dir i prompt rs [] st = (None, st)"
| "edit_shapes api save_dir i prompt rs (Picture rId # rest) st =
     (case rs rId of
        None \<Rightarrow> (Some KeyError, st)
      | Some part \<Rightarrow>
          (case image_parts st part of
             None \<Rightarrow> (Some KeyError, st)
           | Some old \<Rightarrow>
               (let sz = img_size old;
                    rq = \<lparr>req_prompt = take 1000 prompt, req_n = 1,
                          req_size = outputsize (fst sz)\<rparr>;
                    st1 = st\<lparr>api_calls := api_calls st @ [rq]\<rparr>
                in case api (length (api_calls st)) rq of
                     Inl e \<Rightarrow> (Some e, st1)
                   | Inr downloaded \<Rightarrow>
                       (let img = pil_resize sz downloaded;
                            path = path_join save_dir (''slide'' @ str_nat (i + 1) @ ''.png'');
                            st2 = st1\<lparr>png_files := (png_files st1)(path \<mapsto> img),
                                      image_parts := (image_parts st1)(part \<mapsto> img)\<rparr>
                        in edit_shapes api save_dir i prompt rs rest st2))))"
| "edit_shapes api save_dir i prompt rs (TextShape t # rest) st =
     edit_shapes api save_dir i prompt rs rest st"
| "edit_shapes api save_dir i prompt rs (OtherShape # rest) st =
     edit_shapes api save_dir i prompt rs rest st"

text \<open>The outer loop \<^verbatim>\<open>for i, slide in enumerate(prs.slides)\<close>.\<close>

fun edit_slide_images ::
  "image_api \<Rightarrow> string \<Rightarrow> nat \<Rightarrow> slide list \<Rightarrow> deck_state \<Rightarrow> py_error option \<times> deck_state" where
  "edit_slide_images api save_dir i [] st = (None, st)"
| "edit_slide_images api save_dir i (s # rest) st =
     (case edit_shapes api save_dir i (slide_prompt (shapes s)) (rels s) (shapes s) st of
        (Some e, st') \<Rightarrow> (Some e, st')
      | (None, st') \<Rightarrow> edit_slide_images api save_dir (i + 1) rest st')"

text \<open>\<^verbatim>\<open>edit_images\<close>: the loop, then the presentation is saved as final.pptx.\<close>

definition edit_images ::
  "image_api \<Rightarrow> string \<Rightarrow> slide list \<Rightarrow> deck_state \<Rightarrow> py_error option \<times> deck_state" where
  "edit_images api save_dir slides st =
     (case edit_slide_images api save_dir 0 slides st of
        (Some e, st') \<Rightarrow> (Some e, st')
      | (None, st') \<Rightarrow> (None, st'\<lparr>final_pptx := Some (image_parts st')\<rparr>))"

text \<open>
  Relations between the state before and after, for the claims: every image part keeps
  its pixel size; every PNG file written has the size of an image part of the state
  before; every request made asks for the bucket of the width of such a part.
\<close>

definition sizes_kept :: "deck_state \<Rightarrow> deck_state \<Rightarrow> bool" where
  "sizes_kept st st' \<longleftrightarrow>
     (\<forall>part. map_option img_size (image_parts st' part) = map_option img_size (image_parts st part))"

definition pngs_sized :: "deck_state \<Rightarrow> deck_state \<Rightarrow> bool" where
  "pngs_sized st st' \<longleftrightarrow>
     (\<forall>path img. png_files st' path = Some img \<longrightarrow>
        png_files st path = Some img \<or>
        (\<exists>part old. image_parts st part = Some old \<and> img_size img = img_size old))"

definition calls_bucketed :: "deck_state \<Rightarrow> deck_state \<Rightarrow> bool" where
  "calls_bucketed st st' \<longleftrightarrow>
     (\<exists>new. api_calls st' = api_calls st @ new \<and>
        (\<forall>rq \<in> set new. \<exists>part old. image_parts st part = Some old \<and>
            req_size rq = outputsize (fst (img_size old)) \<and> req_n rq = 1))"

definition step_ok :: "deck_state \<Rightarrow> deck_state \<Rightarrow> bool" where
  "step_ok st st' \<longleftrightarrow> sizes_kept st st' \<and> pngs_sized st st' \<and> calls_bucketed st st'"

text \<open>
  The part was overwritten by a download of the run: the answer of the API to one of the
  new requests, which asked for the bucket of the part's former width, resized to the
  part's former size.
\<close>

definition generated :: "image_api \<Rightarrow> deck_state \<Rightarrow> deck_state \<Rightarrow> nat \<Rightarrow> bool" where
  "generated api st st' part \<longleftrightarrow>
     (\<exists>old k downloaded.
        image_parts st part = Some old \<and>
        length (api_calls st) \<le> k \<and> k < length (api_calls st') \<and>
        req_size (api_calls st' ! k) = outputsize (fst (img_size old)) \<and>
        api k (api_calls st' ! k) = Inr downloaded \<and>
        image_parts st' part = Some (pil_resize (img_size old) downloaded))"

definition parts_step :: "image_api \<Rightarrow> deck_state \<Rightarrow> deck_state \<Rightarrow> bool" where
  "parts_step api st st' \<longleftrightarrow>
     step_ok st st' \<and>
     (\<forall>part. image_parts st' part = image_parts st part \<or> generated api st st' part)"

text \<open>A deck of one slide with a text shape and a picture of 300 by 200 pixels.\<close>

definition demo_api :: image_api where
  "demo_api k rq = Inr \<lparr>img_size = (1024, 1024), img_shows = 42\<rparr>"

definition demo_slides :: "slide list" where
  "demo_slides = [\<lparr>shapes = [TextShape ''Chat noir'', Picture ''rId2''], rels = [''rId2'' \<mapsto> 7]\<rparr>]"

definition demo_state :: deck_state where
  "demo_state = \<lparr>image_parts = [7 \<mapsto> \<lparr>img_size = (300, 200), img_shows = 1\<rparr>],
                  png_files = Map.empty, api_calls = [], final_pptx = None\<rparr>"








section \<open>Reference functions for the claims\<close>




text \<open>
  Literal replacement, as the claims word it: \<^verbatim>\<open>str.replace(old, new)\<close> of every
  non-overlapping occurrence from the left (an empty \<open>old\<close> matches at every position),
  and the replacement of the first occurrence only.
\<close>

function str_replace :: "string \<Rightarrow> string \<Rightarrow> string \<Rightarrow> string" where
  "str_replace old new s =
     (if old = [] then new @ concat (map (\<lambda>c. c # new) s)
      else if s = [] then []
      else if take (length old) s = old then new @ str_replace old new (drop (length old) s)
      else hd s # str_replace old new (tl s))"
  by pat_completeness auto
termination
  by (relation "measure (\<lambda>(old, new, s). length s)") auto

declare str_replace.simps [simp del]









section \<open>Lemmas\<close>
























lemma pad_responses_length: "length xml_text \<le> length (pad_responses rs (length xml_text))"
  by (simp add: pad_responses_def)










lemma sizes_kept_refl: "sizes_kept st st"
  by (simp add: sizes_kept_def)

lemma sizes_kept_trans: "sizes_kept a b \<Longrightarrow> sizes_kept b c \<Longrightarrow> sizes_kept a c"
  by (simp add: sizes_kept_def)

lemma pngs_sized_refl: "pngs_sized st st"
  by (simp add: pngs_sized_def)

lemma part_size_back:
  assumes "sizes_kept a b" and "image_parts b part = Some old"
  shows "\<exists>old'. image_parts a part = Some old' \<and> img_size old' = img_size old"
proof -
  from assms(1) have "map_option img_size (image_parts b part) = map_option img_size (image_parts a part)"
    unfolding sizes_kept_def by blast
  with assms(2) show ?thesis by (cases "image_parts a part") auto
qed

lemma pngs_sized_trans:
  assumes "sizes_kept a b" and "pngs_sized a b" and "pngs_sized b c"
  shows "pngs_sized a c"
  unfolding pngs_sized_def
proof (intro allI impI)
  fix path img
  assume "png_files c path = Some img"
  with assms(3) consider "png_files b path = Some img"
    | part old where "image_parts b part = Some old" "img_size img = img_size old"
    unfolding pngs_sized_def by blast
  then show "png_files a path = Some img \<or>
        (\<exists>part old. image_parts a part = Some old \<and> img_size img = img_size old)"
  proof cases
    case 1
    with assms(2) show ?thesis unfolding pngs_sized_def by blast
  next
    case 2
    from part_size_back [OF assms(1) 2(1)] obtain old' where
      "image_parts a part = Some old'" "img_size old' = img_size old" by blast
    with 2(2) have "\<exists>part old. image_parts a part = Some old \<and> img_size img = img_size old"
      by (intro exI [of _ part] exI [of _ old']) simp
    then show ?thesis by blast
  qed
qed

lemma calls_bucketed_refl: "calls_bucketed st st"
  by (simp add: calls_bucketed_def)

lemma calls_bucketed_trans:
  assumes "sizes_kept a b" and "calls_bucketed a b" and "calls_bucketed b c"
  shows "calls_bucketed a c"
proof -
  from assms(2) obtain n1 where n1: "api_calls b = api_calls a @ n1"
    "\<forall>rq \<in> set n1. \<exists>part old. image_parts a part = Some old \<and>
            req_size rq = outputsize (fst (img_size old)) \<and> req_n rq = 1"
    unfolding calls_bucketed_def by blast
  from assms(3) obtain n2 where n2: "api_calls c = api_calls b @ n2"
    "\<forall>rq \<in> set n2. \<exists>part old. image_parts b part = Some old \<and>
            req_size rq = outputsize (fst (img_size old)) \<and> req_n rq = 1"
    unfolding calls_bucketed_def by blast
  have "\<exists>part old. image_parts a part = Some old \<and>
            req_size rq = outputsize (fst (img_size old)) \<and> req_n rq = 1" if "rq \<in> set n2" for rq
  proof -
    from n2(2) that obtain part old where o: "image_parts b part = Some old"
      "req_size rq = outputsize (fst (img_size old))" "req_n rq = 1" by blast
    from part_size_back [OF assms(1) o(1)] obtain old' where
      "image_parts a part = Some old'" "img_size old' = img_size old" by blast
    with o(2,3) show ?thesis
      by (intro exI [of _ part] exI [of _ old']) simp
  qed
  with n1 n2(1) show ?thesis
    unfolding calls_bucketed_def by (intro exI [of _ "n1 @ n2"]) auto
qed

lemma step_ok_refl: "step_ok st st"
  by (simp add: step_ok_def sizes_kept_refl pngs_sized_refl calls_bucketed_refl)

lemma step_ok_trans: "step_ok a b \<Longrightarrow> step_ok b c \<Longrightarrow> step_ok a c"
  unfolding step_ok_def
  using sizes_kept_trans pngs_sized_trans calls_bucketed_trans by blast

lemma edit_shapes_ok:
  "edit_shapes api save_dir i prompt rs ss st = (err, st') \<Longrightarrow> step_ok st st'"
proof (induction api save_dir i prompt rs ss st rule: edit_shapes.induct)
  case (1 api save_dir i prompt rs st)
  then show ?case by (simp add: step_ok_refl)
next
  case (2 api save_dir i prompt rs rId rest st)
  show ?case
  proof (cases "rs rId")
    case None
    with "2.prems" show ?thesis by (simp add: step_ok_refl)
  next
    case (Some part)
    show ?thesis
    proof (cases "image_parts st part")
      case None
      with Some "2.prems" show ?thesis by (simp add: step_ok_refl)
    next
      case old: (Some old)
      let ?size = "img_size old"
      let ?rq = "\<lparr>req_prompt = take 1000 prompt, req_n = 1, req_size = outputsize (fst ?size)\<rparr>"
      let ?st1 = "st\<lparr>api_calls := api_calls st @ [?rq]\<rparr>"
      have s1: "step_ok st ?st1"
        using old
        by (auto simp: step_ok_def sizes_kept_def pngs_sized_def calls_bucketed_def)
      show ?thesis
      proof (cases "api (length (api_calls st)) ?rq")
        case (Inl e)
        with Some old "2.prems" s1 show ?thesis by (simp add: Let_def)
      next
        case (Inr downloaded)
        let ?img = "pil_resize ?size downloaded"
        let ?path = "path_join save_dir (''slide'' @ str_nat (i + 1) @ ''.png'')"
        let ?st2 = "?st1\<lparr>png_files := (png_files ?st1)(?path \<mapsto> ?img),
                          image_parts := (image_parts ?st1)(part \<mapsto> ?img)\<rparr>"
        have s2: "step_ok ?st1 ?st2"
          using old
          by (auto simp: step_ok_def sizes_kept_def pngs_sized_def calls_bucketed_def pil_resize_def)
        from Some old Inr "2.prems"
        have "edit_shapes api save_dir i prompt rs rest ?st2 = (err, st')"
          by (simp add: Let_def)
        with "2.IH" [OF Some old refl refl refl Inr refl refl refl]
        have "step_ok ?st2 st'" by simp
        with s1 s2 show ?thesis by (blast intro: step_ok_trans)
      qed
    qed
  qed
next
  case (3 api save_dir i prompt rs t rest st)
  then show ?case by simp
next
  case (4 api save_dir i prompt rs rest st)
  then show ?case by simp
qed

lemma parts_step_refl: "parts_step api st st"
  by (simp add: parts_step_def step_ok_refl)

lemma calls_prefix: "step_ok a b \<Longrightarrow> \<exists>new. api_calls b = api_calls a @ new"
  unfolding step_ok_def calls_bucketed_def by blast

lemma generated_later:
  assumes "generated api a b part" and "step_ok b c" and "image_parts c part = image_parts b part"
  shows "generated api a c part"
proof -
  from assms(1) obtain old k downloaded where g:
    "image_parts a part = Some old" "length (api_calls a) \<le> k" "k < length (api_calls b)"
    "req_size (api_calls b ! k) = outputsize (fst (img_size old))"
    "api k (api_calls b ! k) = Inr downloaded"
    "image_parts b part = Some (pil_resize (img_size old) downloaded)"
    unfolding generated_def by blast
  from calls_prefix [OF assms(2)] obtain new where n: "api_calls c = api_calls b @ new" by blast
  with g(3) have "api_calls c ! k = api_calls b ! k" "k < length (api_calls c)"
    by (simp_all add: nth_append)
  with g assms(3) show ?thesis
    unfolding generated_def by (intro exI [of _ old] exI [of _ k] exI [of _ downloaded]) simp
qed

lemma generated_earlier:
  assumes "step_ok a b" and "generated api b c part"
  shows "generated api a c part"
proof -
  from assms(2) obtain old k downloaded where g:
    "image_parts b part = Some old" "length (api_calls b) \<le> k" "k < length (api_calls c)"
    "req_size (api_calls c ! k) = outputsize (fst (img_size old))"
    "api k (api_calls c ! k) = Inr downloaded"
    "image_parts c part = Some (pil_resize (img_size old) downloaded)"
    unfolding generated_def by blast
  from assms(1) have "sizes_kept a b" by (simp add: step_ok_def)
  from part_size_back [OF this g(1)] obtain old' where
    o: "image_parts a part = Some old'" "img_size old' = img_size old" by blast
  from calls_prefix [OF assms(1)] g(2) have "length (api_calls a) \<le> k" by auto
  with g o show ?thesis
    unfolding generated_def by (intro exI [of _ old'] exI [of _ k] exI [of _ downloaded]) simp
qed

lemma parts_step_trans:
  assumes "parts_step api a b" and "parts_step api b c"
  shows "parts_step api a c"
proof -
  from assms have ab: "step_ok a b" and bc: "step_ok b c"
    by (simp_all add: parts_step_def)
  have "image_parts c part = image_parts a part \<or> generated api a c part" for part
  proof (cases "generated api b c part")
    case True
    from generated_earlier [OF ab True] show ?thesis ..
  next
    case False
    with assms(2) have same: "image_parts c part = image_parts b part"
      unfolding parts_step_def by blast
    show ?thesis
    proof (cases "generated api a b part")
      case True
      from generated_later [OF True bc same] show ?thesis ..
    next
      case False
      with assms(1) have "image_parts b part = image_parts a part"
        unfolding parts_step_def by blast
      with same show ?thesis by simp
    qed
  qed
  with step_ok_trans [OF ab bc] show ?thesis
    by (simp add: parts_step_def)
qed

lemma generated_kept:
  assumes "generated api a b part" and "parts_step api b c"
  shows "generated api a c part"
proof (cases "generated api b c part")
  case True
  show ?thesis
  proof -
    from True obtain oldb k downloaded where g:
      "image_parts b part = Some oldb" "length (api_calls b) \<le> k" "k < length (api_calls c)"
      "req_size (api_calls c ! k) = outputsize (fst (img_size oldb))"
      "api k (api_calls c ! k) = Inr downloaded"
      "image_parts c part = Some (pil_resize (img_size oldb) downloaded)"
      unfolding generated_def by blast
    from assms(1) obtain olda ka da where a:
      "image_parts a part = Some olda" "length (api_calls a) \<le> ka" "ka < length (api_calls b)"
      "image_parts b part = Some (pil_resize (img_size olda) da)"
      unfolding generated_def by blast
    from a(4) g(1) have "img_size oldb = img_size olda"
      by (auto simp: pil_resize_def)
    moreover from a(2,3) g(2) have "length (api_calls a) \<le> k" by simp
    ultimately show ?thesis
      using g a(1) unfolding generated_def
      by (intro exI [of _ olda] exI [of _ k] exI [of _ downloaded]) simp
  qed
next
  case False
  with assms(2) have "image_parts c part = image_parts b part" and "step_ok b c"
    unfolding parts_step_def by blast+
  with generated_later [OF assms(1)] show ?thesis by blast
qed


lemma edit_shapes_parts:
  "edit_shapes api save_dir i prompt rs ss st = (err, st') \<Longrightarrow>
     parts_step api st st' \<and>
     (err = None \<longrightarrow>
        (\<forall>rId part. Picture rId \<in> set ss \<and> rs rId = Some part \<longrightarrow> generated api st st' part))"
proof (induction api save_dir i prompt rs ss st rule: edit_shapes.induct)
  case (1 api save_dir i prompt rs st)
  then show ?case by (simp add: parts_step_refl)
next
  case (2 api save_dir i prompt rs rId rest st)
  show ?case
  proof (cases "rs rId")
    case None
    with "2.prems" show ?thesis by (auto simp: parts_step_refl)
  next
    case (Some part)
    show ?thesis
    proof (cases "image_parts st part")
      case None
      with Some "2.prems" show ?thesis by (auto simp: parts_step_refl)
    next
      case old: (Some old)
      let ?size = "img_size old"
      let ?rq = "\<lparr>req_prompt = take 1000 prompt, req_n = 1, req_size = outputsize (fst ?size)\<rparr>"
      let ?st1 = "st\<lparr>api_calls := api_calls st @ [?rq]\<rparr>"
      show ?thesis
      proof (cases "api (length (api_calls st)) ?rq")
        case (Inl e)
        with Some old "2.prems" have r: "err = Some e" "st' = ?st1" by (simp_all add: Let_def)
        have "step_ok st ?st1"
          using edit_shapes_ok [of api save_dir i prompt rs "Picture rId # rest" st "Some e" ?st1]
            Some old Inl by (simp add: Let_def)
        with r show ?thesis by (simp add: parts_step_def)
      next
        case (Inr downloaded)
        let ?img = "pil_resize ?size downloaded"
        let ?path = "path_join save_dir (''slide'' @ str_nat (i + 1) @ ''.png'')"
        let ?st2 = "?st1\<lparr>png_files := (png_files ?st1)(?path \<mapsto> ?img),
                          image_parts := (image_parts ?st1)(part \<mapsto> ?img)\<rparr>"
        have ok2: "step_ok st ?st2"
          using old
          by (auto simp: step_ok_def sizes_kept_def pngs_sized_def calls_bucketed_def pil_resize_def)
        have g: "generated api st ?st2 part"
          unfolding generated_def using old Inr
          by (intro exI [of _ old] exI [of _ "length (api_calls st)"] exI [of _ downloaded]) simp
        have ps: "parts_step api st ?st2"
          unfolding parts_step_def using ok2 g by auto
        from Some old Inr "2.prems"
        have run: "edit_shapes api save_dir i prompt rs rest ?st2 = (err, st')"
          by (simp add: Let_def)
        with "2.IH" [OF Some old refl refl refl Inr refl refl refl]
        have rest: "parts_step api ?st2 st'"
          and pics: "err = None \<longrightarrow>
            (\<forall>rId part. Picture rId \<in> set rest \<and> rs rId = Some part \<longrightarrow> generated api ?st2 st' part)"
          by simp_all
        have "generated api st st' p" if "err = None" "Picture r \<in> set (Picture rId # rest)"
          "rs r = Some p" for r p
        proof (cases "r = rId")
          case True
          with that Some have "p = part" by simp
          with generated_kept [OF g rest] show ?thesis by simp
        next
          case False
          with that pics have "generated api ?st2 st' p" by auto
          with ok2 show ?thesis by (rule generated_earlier)
        qed
        with parts_step_trans [OF ps rest] show ?thesis by blast
      qed
    qed
  qed
next
  case (3 api save_dir i prompt rs t rest st)
  then show ?case by simp
next
  case (4 api save_dir i prompt rs rest st)
  then show ?case by simp
qed

lemma edit_slide_images_parts:
  "edit_slide_images api save_dir i slides st = (err, st') \<Longrightarrow>
     parts_step api st st' \<and>
     (err = None \<longrightarrow>
        (\<forall>s rId part. s \<in> set slides \<and> Picture rId \<in> set (shapes s) \<and> rels s rId = Some part
            \<longrightarrow> generated api st st' part))"
proof (induction slides arbitrary: i st)
  case Nil
  then show ?case by (simp add: parts_step_refl)
next
  case (Cons s slides)
  obtain e1 st1 where one:
    "edit_shapes api save_dir i (slide_prompt (shapes s)) (rels s) (shapes s) st = (e1, st1)"
    by (cases "edit_shapes api save_dir i (slide_prompt (shapes s)) (rels s) (shapes s) st")
  from edit_shapes_parts [OF one] have ps1: "parts_step api st st1"
    and pics1: "e1 = None \<longrightarrow>
        (\<forall>rId part. Picture rId \<in> set (shapes s) \<and> rels s rId = Some part
            \<longrightarrow> generated api st st1 part)"
    by simp_all
  show ?case
  proof (cases e1)
    case (Some e)
    with one Cons.prems have "err = Some e" "st' = st1" by simp_all
    with ps1 show ?thesis by simp
  next
    case None
    with one Cons.prems have run: "edit_slide_images api save_dir (i + 1) slides st1 = (err, st')"
      by simp
    from Cons.IH [OF run] have ps2: "parts_step api st1 st'"
      and pics2: "err = None \<longrightarrow>
        (\<forall>s rId part. s \<in> set slides \<and> Picture rId \<in> set (shapes s) \<and> rels s rId = Some part
            \<longrightarrow> generated api st1 st' part)"
      by simp_all
    from ps1 have ok1: "step_ok st st1" by (simp add: parts_step_def)
    have "generated api st st' p" if "err = None" "t \<in> set (s # slides)"
      "Picture r \<in> set (shapes t)" "rels t r = Some p" for t r p
    proof (cases "t \<in> set slides")
      case True
      with that pics2 have "generated api st1 st' p" by blast
      with ok1 show ?thesis by (rule generated_earlier)
    next
      case False
      with that have "t = s" by simp
      with that None pics1 have "generated api st st1 p" by blast
      then show ?thesis using ps2 by (rule generated_kept)
    qed
    with parts_step_trans [OF ps1 ps2] show ?thesis by blast
  qed
qed

lemma edit_images_parts:
  assumes "edit_images api save_dir slides st = (err, st')"
  shows "parts_step api st st'"
    and "err = None \<Longrightarrow> s \<in> set slides \<Longrightarrow> Picture rId \<in> set (shapes s) \<Longrightarrow>
         rels s rId = Some part \<Longrightarrow> generated api st st' part"
proof -
  obtain e1 st1 where run: "edit_slide_images api save_dir 0 slides st = (e1, st1)"
    by (cases "edit_slide_images api save_dir 0 slides st")
  from edit_slide_images_parts [OF run] have ps: "parts_step api st st1"
    and pics: "e1 = None \<longrightarrow>
        (\<forall>s rId part. s \<in> set slides \<and> Picture rId \<in> set (shapes s) \<and> rels s rId = Some part
            \<longrightarrow> generated api st st1 part)"
    by simp_all
  from run assms have e: "err = e1" and parts: "image_parts st' = image_parts st1"
    and calls: "api_calls st' = api_calls st1" and pngs: "png_files st' = png_files st1"
    by (auto simp: edit_images_def split: option.splits)
  have same: "parts_step api st1 st'"
    using parts calls pngs
    by (simp add: parts_step_def step_ok_def sizes_kept_def pngs_sized_def calls_bucketed_def)
  from parts_step_trans [OF ps same] show "parts_step api st st'" .
  show "generated api st st' part"
    if "err = None" "s \<in> set slides" "Picture rId \<in> set (shapes s)" "rels s rId = Some part"
  proof -
    from that e pics have "generated api st st1 part" by blast
    then show ?thesis using same by (rule generated_kept)
  qed
qed




















section \<open>The claims about \<^verbatim>\<open>edit_text\<close>\<close>










text \<open>
  Claim C9. The run's text is the pattern of \<^verbatim>\<open>re.sub\<close>, unescaped. When it does
  not compile (as the unbalanced \<^verbatim>\<open>(\<close>), \<^verbatim>\<open>edit_text\<close> raises
  \<^verbatim>\<open>re.error\<close> at the first slide and no file changes. A dot in the run's text
  matches any character: the run \<^verbatim>\<open>1.5\<close> rewrites a file in which the text
  \<^verbatim>\<open>1.5\<close> does not occur.
\<close>

theorem edit_text_pattern_not_escaped:
  assumes "re_compile pattern = Inl ReError"
    and "fs (slide_path save_dir 1) = Some content"
  shows "edit_text save_dir (Some pattern # others) response (Suc n # rest) fs = (Some ReError, fs)
         \<and> re_compile ''('' = Inl ReError
         \<and> snd (edit_text ''deck'' [Some ''1.5''] ''B'' [1]
                  [slide_path ''deck'' 1 \<mapsto> ''<a:t>135</a:t>'']) (slide_path ''deck'' 1)
             = Some ''<a:t>B</a:t>''
         \<and> str_replace ''1.5'' ''B'' ''<a:t>135</a:t>'' = ''<a:t>135</a:t>''"
proof -
  let ?lines = "pad_responses (split_nl response) (length (Some pattern # others))"
  have "length (Some pattern # others) \<le> length ?lines"
    by (rule pad_responses_length)
  then have line: "list_get ?lines 0 = Inr (?lines ! 0)"
    by (auto simp: list_get_def)
  have idx: "[0 ..< 0 + Suc n] = 0 # [1 ..< Suc n]"
    by (simp add: upt_rec)
  have "sub_runs (Some pattern # others) ?lines [0 ..< 0 + Suc n] content = Inl ReError"
    unfolding idx using assms(1) line
    by (simp add: list_get_def re_sub_def)
  with assms(2) have "edit_text save_dir (Some pattern # others) response (Suc n # rest) fs
      = (Some ReError, fs)"
    by (simp add: edit_text_def)
  moreover have "re_compile ''('' = Inl ReError"
    by code_simp
  moreover have "snd (edit_text ''deck'' [Some ''1.5''] ''B'' [1]
                  [slide_path ''deck'' 1 \<mapsto> ''<a:t>135</a:t>'']) (slide_path ''deck'' 1)
             = Some ''<a:t>B</a:t>''"
    by code_simp
  moreover have "str_replace ''1.5'' ''B'' ''<a:t>135</a:t>'' = ''<a:t>135</a:t>''"
    by code_simp
  ultimately show ?thesis by (intro conjI)
qed

theorem edit_text_pattern_not_escaped_witness:
  "re_compile ''('' = Inl ReError
   \<and> [slide_path ''deck'' 1 \<mapsto> ''<a:t>f(x)</a:t>''] (slide_path ''deck'' 1) = Some ''<a:t>f(x)</a:t>''
   \<and> edit_text ''deck'' [Some ''(''] ''g'' [Suc 0] [slide_path ''deck'' 1 \<mapsto> ''<a:t>f(x)</a:t>'']
       = (Some ReError, [slide_path ''deck'' 1 \<mapsto> ''<a:t>f(x)</a:t>''])"
proof -
  have c: "re_compile ''('' = Inl ReError"
    by code_simp
  have f: "[slide_path ''deck'' 1 \<mapsto> ''<a:t>f(x)</a:t>''] (slide_path ''deck'' 1) = Some ''<a:t>f(x)</a:t>''"
    by simp
  from edit_text_pattern_not_escaped
         [where pattern = "''(''" and save_dir = "''deck''" and content = "''<a:t>f(x)</a:t>''"
            and fs = "[slide_path ''deck'' 1 \<mapsto> ''<a:t>f(x)</a:t>'']"
            and others = "[]" and response = "''g''" and n = 0 and rest = "[]", OF c f]
    c f
  show ?thesis by (intro conjI) simp_all
qed

section \<open>The claims about \<^verbatim>\<open>edit_images\<close>\<close>

text \<open>
  Claim C7. Whatever the API returns, \<^verbatim>\<open>edit_images\<close> leaves every image part with
  the pixel size it had, and every PNG file it writes has the size of an image part of
  the package; after a run without exception the image part of every picture shape is
  an image the API returned, resized to the size the part had before.
\<close>

theorem edit_images_resizes_to_original:
  assumes "edit_images api save_dir slides st = (err, st')"
  shows "sizes_kept st st' \<and> pngs_sized st st' \<and>
         (err = None \<longrightarrow>
            (\<forall>s rId part. s \<in> set slides \<and> Picture rId \<in> set (shapes s) \<and> rels s rId = Some part
               \<longrightarrow> (\<exists>old k downloaded.
                      image_parts st part = Some old \<and>
                      api k (api_calls st' ! k) = Inr downloaded \<and>
                      image_parts st' part = Some (pil_resize (img_size old) downloaded) \<and>
                      img_size (pil_resize (img_size old) downloaded) = img_size old)))"
proof -
  from edit_images_parts(1) [OF assms] have "sizes_kept st st'" "pngs_sized st st'"
    by (simp_all add: parts_step_def step_ok_def)
  moreover have "\<exists>old k downloaded.
                      image_parts st part = Some old \<and>
                      api k (api_calls st' ! k) = Inr downloaded \<and>
                      image_parts st' part = Some (pil_resize (img_size old) downloaded) \<and>
                      img_size (pil_resize (img_size old) downloaded) = img_size old"
    if "err = None" "s \<in> set slides" "Picture rId \<in> set (shapes s)" "rels s rId = Some part"
    for s rId part
  proof -
    from edit_images_parts(2) [OF assms that] obtain old k downloaded where
      "image_parts st part = Some old" "api k (api_calls st' ! k) = Inr downloaded"
      "image_parts st' part = Some (pil_resize (img_size old) downloaded)"
      unfolding generated_def by blast
    then show ?thesis
      by (intro exI [of _ old] exI [of _ k] exI [of _ downloaded]) (simp add: pil_resize_def)
  qed
  ultimately show ?thesis by blast
qed

theorem edit_images_resizes_to_original_witness:
  "fst (edit_images demo_api ''deck'' demo_slides demo_state) = None
   \<and> map_option img_size (image_parts demo_state 7) = Some (300, 200)
   \<and> map_option img_size (image_parts (snd (edit_images demo_api ''deck'' demo_slides demo_state)) 7)
       = Some (300, 200)
   \<and> image_parts (snd (edit_images demo_api ''deck'' demo_slides demo_state)) 7
       = Some \<lparr>img_size = (300, 200), img_shows = 42\<rparr>
   \<and> png_files (snd (edit_images demo_api ''deck'' demo_slides demo_state)) ''deck/slide1.png''
       = Some \<lparr>img_size = (300, 200), img_shows = 42\<rparr>"
proof -
  let ?out = "edit_images demo_api ''deck'' demo_slides demo_state"
  have ok: "fst ?out = None"
    by code_simp
  have run: "?out = (fst ?out, snd ?out)"
    by simp
  have before: "map_option img_size (image_parts demo_state 7) = Some (300, 200)"
    by code_simp
  have part: "image_parts (snd ?out) 7 = Some \<lparr>img_size = (300, 200), img_shows = 42\<rparr>"
    by code_simp
  have png: "png_files (snd ?out) ''deck/slide1.png'' = Some \<lparr>img_size = (300, 200), img_shows = 42\<rparr>"
    by code_simp
  from edit_images_resizes_to_original [OF run] have "sizes_kept demo_state (snd ?out)"
    by blast
  then have "map_option img_size (image_parts (snd ?out) 7)
      = map_option img_size (image_parts demo_state 7)"
    unfolding sizes_kept_def by blast
  with before have "map_option img_size (image_parts (snd ?out) 7) = Some (300, 200)"
    by simp
  with ok before part png show ?thesis by (intro conjI)
qed

text \<open>
  Claim C8. Every request \<^verbatim>\<open>edit_images\<close> makes asks for the size that the width
  of an image part of the package selects, one of 256x256, 512x512 and 1024x1024; after
  a run without exception there is such a request for the part of every picture shape.
  The width alone selects: 256x256 up to 256, 512x512 above 256 up to 512, 1024x1024
  above.
\<close>

theorem edit_images_requests_bucket:
  assumes "edit_images api save_dir slides st = (err, st')"
  shows "(\<exists>new. api_calls st' = api_calls st @ new \<and>
            (\<forall>rq \<in> set new.
               (\<exists>part old. image_parts st part = Some old \<and>
                   req_size rq = outputsize (fst (img_size old))) \<and>
               req_size rq \<in> {''256x256'', ''512x512'', ''1024x1024''}))
         \<and> (err = None \<longrightarrow>
              (\<forall>s rId part. s \<in> set slides \<and> Picture rId \<in> set (shapes s) \<and> rels s rId = Some part
                 \<longrightarrow> (\<exists>old k. image_parts st part = Some old \<and>
                        length (api_calls st) \<le> k \<and> k < length (api_calls st') \<and>
                        req_size (api_calls st' ! k) = outputsize (fst (img_size old)))))
         \<and> (\<forall>w. (w \<le> 256 \<longrightarrow> outputsize w = ''256x256'') \<and>
                 (256 < w \<and> w \<le> 512 \<longrightarrow> outputsize w = ''512x512'') \<and>
                 (512 < w \<longrightarrow> outputsize w = ''1024x1024''))"
proof -
  have set3: "outputsize w \<in> {''256x256'', ''512x512'', ''1024x1024''}" for w
    by (simp add: outputsize_def)
  from edit_images_parts(1) [OF assms] have "calls_bucketed st st'"
    by (simp add: parts_step_def step_ok_def)
  then obtain new where new: "api_calls st' = api_calls st @ new"
    "\<forall>rq \<in> set new. \<exists>part old. image_parts st part = Some old \<and>
        req_size rq = outputsize (fst (img_size old)) \<and> req_n rq = 1"
    unfolding calls_bucketed_def by blast
  have "(\<exists>part old. image_parts st part = Some old \<and>
                   req_size rq = outputsize (fst (img_size old))) \<and>
               req_size rq \<in> {''256x256'', ''512x512'', ''1024x1024''}" if "rq \<in> set new" for rq
  proof -
    from new(2) that obtain part old where o: "image_parts st part = Some old"
      "req_size rq = outputsize (fst (img_size old))" by blast
    from o(2) set3 [of "fst (img_size old)"]
    have "req_size rq \<in> {''256x256'', ''512x512'', ''1024x1024''}" by simp
    with o show ?thesis by blast
  qed
  with new(1) have first: "\<exists>new. api_calls st' = api_calls st @ new \<and>
            (\<forall>rq \<in> set new.
               (\<exists>part old. image_parts st part = Some old \<and>
                   req_size rq = outputsize (fst (img_size old))) \<and>
               req_size rq \<in> {''256x256'', ''512x512'', ''1024x1024''})"
    by blast
  have second: "\<exists>old k. image_parts st part = Some old \<and>
                        length (api_calls st) \<le> k \<and> k < length (api_calls st') \<and>
                        req_size (api_calls st' ! k) = outputsize (fst (img_size old))"
    if "err = None" "s \<in> set slides" "Picture rId \<in> set (shapes s)" "rels s rId = Some part"
    for s rId part
    using edit_images_parts(2) [OF assms that] unfolding generated_def by blast
  have third: "(w \<le> 256 \<longrightarrow> outputsize w = ''256x256'') \<and>
                 (256 < w \<and> w \<le> 512 \<longrightarrow> outputsize w = ''512x512'') \<and>
                 (512 < w \<longrightarrow> outputsize w = ''1024x1024'')" for w
    by (simp add: outputsize_def)
  from first second third show ?thesis by blast
qed

theorem edit_images_requests_bucket_witness:
  "fst (edit_images demo_api ''deck'' demo_slides demo_state) = None
   \<and> api_calls (snd (edit_images demo_api ''deck'' demo_slides demo_state))
       = [\<lparr>req_prompt = ''Chat noir '', req_n = 1, req_size = ''512x512''\<rparr>]
   \<and> outputsize 300 = ''512x512''
   \<and> outputsize 256 = ''256x256''
   \<and> outputsize 513 = ''1024x1024''"
proof -
  let ?out = "edit_images demo_api ''deck'' demo_slides demo_state"
  have ok: "fst ?out = None"
    by code_simp
  have run: "?out = (fst ?out, snd ?out)"
    by simp
  have calls: "api_calls (snd ?out) = [\<lparr>req_prompt = ''Chat noir '', req_n = 1, req_size = ''512x512''\<rparr>]"
    by code_simp
  from edit_images_requests_bucket [OF run]
  have "\<forall>w. (w \<le> 256 \<longrightarrow> outputsize w = ''256x256'') \<and>
                 (256 < w \<and> w \<le> 512 \<longrightarrow> outputsize w = ''512x512'') \<and>
                 (512 < w \<longrightarrow> outputsize w = ''1024x1024'')"
    by blast
  then have "outputsize 300 = ''512x512''" "outputsize 256 = ''256x256''"
    "outputsize 513 = ''1024x1024''"
    by simp_all
  with ok calls show ?thesis by (intro conjI)
qed

section \<open>The claims about \<^verbatim>\<open>text_parse\<close> and \<^verbatim>\<open>generate_text\<close>\<close>





section \<open>The end-to-end scenario\<close>




end
